theory Spec2Isabelle
  imports Main
begin

section \<open>Data model of the collector package\<close>

text \<open>
  \<^verbatim>\<open>types.ManagedObjectReference\<close>: a type tag and an opaque value. It is the key type
  of the parents cache and the argument of every remote property fetch.
\<close>

record ManagedObjectReference =
  Type :: string
  Value :: string

text \<open>\<^verbatim>\<open>type Parents struct { dc, cluster, spod string }\<close>\<close>

record Parents =
  dc :: string
  cluster :: string
  spod :: string

text \<open>
  \<^verbatim>\<open>mo.ManagedEntity\<close>, restricted to the two properties the package reads
  (\<^verbatim>\<open>name\<close> and \<^verbatim>\<open>parent\<close>); \<^verbatim>\<open>Parent\<close> is a pointer, \<open>None\<close> is \<^verbatim>\<open>nil\<close>.
\<close>

record ManagedEntity =
  Name :: string
  Parent :: "ManagedObjectReference option"

text \<open>
  \<^verbatim>\<open>mo.VirtualMachine\<close>, restricted to what the resolvers read: the embedded
  \<^verbatim>\<open>ManagedEntity\<close>, \<^verbatim>\<open>ResourcePool\<close> and \<^verbatim>\<open>Summary.Runtime.Host\<close>.
\<close>

record VirtualMachine =
  Entity :: ManagedEntity
  ResourcePool :: "ManagedObjectReference option"
  RuntimeHost :: "ManagedObjectReference option"

text \<open>
  The remote inventory API is outside the package. One call of
  \<^verbatim>\<open>pc.RetrieveOne(ctx, ref, []string{"name", "parent"}, &entity)\<close> is a function of
  the reference: \<open>Inl err\<close> when \<^verbatim>\<open>err != nil\<close>, \<open>Inr entity\<close> for the value written
  to \<^verbatim>\<open>entity\<close> otherwise. The function is a parameter of every operation below.
\<close>

datatype error = Fault string

type_synonym client = "ManagedObjectReference \<Rightarrow> error + ManagedEntity"

text \<open>
  \<^verbatim>\<open>type ParentsCache struct { cache map[ManagedObjectReference]Parents; mux sync.Mutex }\<close>.
  The model is sequential, so the mutex has no counterpart.
\<close>

record ParentsCache =
  cache :: "ManagedObjectReference \<rightharpoonup> Parents"

text \<open>
  What a call can observe or change beyond its result: the package variable \<^verbatim>\<open>cache\<close>
  (field \<open>pcache\<close>) and the sequence of cache operations and remote fetches issued so
  far (field \<open>trace\<close>), which instruments the model so that calls can be counted.
\<close>

datatype event =
    CacheGet ManagedObjectReference
  | CacheAdd ManagedObjectReference Parents
  | CacheFlush
  | RetrieveOne ManagedObjectReference

record world =
  pcache :: ParentsCache
  trace :: "event list"

text \<open>A \<^verbatim>\<open>for\<close> loop is left by \<^verbatim>\<open>break\<close> or by a \<^verbatim>\<open>return\<close> of the enclosing function.\<close>

datatype 'a loop_exit = Break 'a | Return 'a

section \<open>The parents cache\<close>

definition NewParentsCache :: ParentsCache where
  "NewParentsCache = \<lparr>cache = Map.empty\<rparr>"

definition Add :: "ParentsCache \<Rightarrow> ManagedObjectReference \<Rightarrow> Parents \<Rightarrow> ParentsCache" where
  "Add c mor val = c\<lparr>cache := (cache c)(mor \<mapsto> val)\<rparr>"

text \<open>A Go map read of a missing key yields the zero value and \<^verbatim>\<open>false\<close>.\<close>

definition Get :: "ParentsCache \<Rightarrow> ManagedObjectReference \<Rightarrow> Parents \<times> bool" where
  "Get c mor =
     (case cache c mor of
        None \<Rightarrow> (\<lparr>dc = [], cluster = [], spod = []\<rparr>, False)
      | Some val \<Rightarrow> (val, True))"

definition Flush :: "ParentsCache \<Rightarrow> ParentsCache" where
  "Flush c = c\<lparr>cache := Map.empty\<rparr>"

section \<open>Resolvers\<close>

definition logged :: "event \<Rightarrow> world \<Rightarrow> world" where
  "logged e w = w\<lparr>trace := trace w @ [e]\<rparr>"

text \<open>
  The \<^verbatim>\<open>for\<close> loop of \<^verbatim>\<open>getParents\<close>, with \<^verbatim>\<open>cur\<close> and \<^verbatim>\<open>res\<close> as loop state
  (\<^verbatim>\<open>entity\<close> is overwritten by every successful fetch before it is read). The loop
  has no bound, so it is a partial function: \<open>None\<close> is a walk that never ends.
  The three tests on \<^verbatim>\<open>cur.Type\<close> are made in the order of the source.
\<close>

partial_function (option) walk ::
  "client \<Rightarrow> ManagedObjectReference \<Rightarrow> Parents \<Rightarrow> world \<Rightarrow> (Parents loop_exit \<times> world) option"
where
  "walk client cur res w =
     (let w1 = logged (RetrieveOne cur) w in
      case client cur of
        Inl err \<Rightarrow> Some (Return \<lparr>dc = ''ERROR'', cluster = ''ERROR'', spod = ''ERROR''\<rparr>, w1)
      | Inr entity \<Rightarrow>
          (let res1 = (if Type cur = ''StoragePod'' then res\<lparr>spod := Name entity\<rparr> else res);
               res2 = (if Type cur = ''ClusterComputeResource''
                       then res1\<lparr>cluster := Name entity\<rparr> else res1)
           in if Type cur = ''Datacenter'' then Some (Break (res2\<lparr>dc := Name entity\<rparr>), w1)
              else case Parent entity of
                     None \<Rightarrow> Some (Break res2, w1)
                   | Some p \<Rightarrow> walk client p res2 w1))"

definition getParents :: "client \<Rightarrow> ManagedEntity \<Rightarrow> world \<Rightarrow> (Parents \<times> world) option" where
  "getParents client me w =
     (let res = \<lparr>dc = ''NONE'', cluster = ''NONE'', spod = ''NONE''\<rparr> in
      case Parent me of
        None \<Rightarrow> Some (res, w)
      | Some p \<Rightarrow>
          (let (cached, ok) = Get (pcache w) p;
               w1 = logged (CacheGet p) w
           in if ok then Some (cached, w1)
              else case walk client p res w1 of
                     None \<Rightarrow> None
                   | Some (Return r, w2) \<Rightarrow> Some (r, w2)
                   | Some (Break r, w2) \<Rightarrow>
                       Some (r, logged (CacheAdd p r) (w2\<lparr>pcache := Add (pcache w2) p r\<rparr>))))"

definition getVMPool :: "client \<Rightarrow> VirtualMachine \<Rightarrow> world \<Rightarrow> ManagedEntity option \<times> world" where
  "getVMPool client me w =
     (case ResourcePool me of
        None \<Rightarrow> (None, w)
      | Some rp \<Rightarrow>
          (let w1 = logged (RetrieveOne rp) w in
           case client rp of
             Inl err \<Rightarrow> (None, w1)
           | Inr entity \<Rightarrow> (Some entity, w1)))"



text \<open>
  The ancestry part of a collector's \<^verbatim>\<open>Update\<close> (hosts, datastores, storage pods and
  resource pools share it): \<^verbatim>\<open>cache.Flush()\<close>, then \<^verbatim>\<open>getParents\<close> for each retrieved
  item in order. \<open>resolve_each\<close> is the \<^verbatim>\<open>for _, item := range items\<close> loop.
\<close>

fun resolve_each ::
  "client \<Rightarrow> ManagedEntity list \<Rightarrow> world \<Rightarrow> (Parents list \<times> world) option" where
  "resolve_each client [] w = Some ([], w)"
| "resolve_each client (me # mes) w =
     (case getParents client me w of
        None \<Rightarrow> None
      | Some (tmp, w1) \<Rightarrow>
          (case resolve_each client mes w1 of
             None \<Rightarrow> None
           | Some (rs, w2) \<Rightarrow> Some (tmp # rs, w2)))"

definition Update_parents ::
  "client \<Rightarrow> ManagedEntity list \<Rightarrow> world \<Rightarrow> (Parents list \<times> world) option" where
  "Update_parents client items w =
     resolve_each client items (logged CacheFlush (w\<lparr>pcache := Flush (pcache w)\<rparr>))"




section \<open>Observations on traces and walks\<close>

text \<open>The events a call issued: what \<open>w'\<close> holds beyond \<open>w\<close>.\<close>

definition issued :: "world \<Rightarrow> world \<Rightarrow> event list" where
  "issued w w' = drop (length (trace w)) (trace w')"

fun fetches :: "event list \<Rightarrow> ManagedObjectReference list" where
  "fetches [] = []"
| "fetches (RetrieveOne r # es) = r # fetches es"
| "fetches (e # es) = fetches es"

definition fetched :: "ManagedObjectReference list \<Rightarrow> world \<Rightarrow> world" where
  "fetched rs w = w\<lparr>trace := trace w @ map RetrieveOne rs\<rparr>"

text \<open>What one iteration of the loop does to \<^verbatim>\<open>res\<close> when the fetch succeeded.\<close>

definition record_node :: "ManagedObjectReference \<Rightarrow> ManagedEntity \<Rightarrow> Parents \<Rightarrow> Parents" where
  "record_node cur entity res =
     (let res1 = (if Type cur = ''StoragePod'' then res\<lparr>spod := Name entity\<rparr> else res);
          res2 = (if Type cur = ''ClusterComputeResource''
                  then res1\<lparr>cluster := Name entity\<rparr> else res1)
      in if Type cur = ''Datacenter'' then res2\<lparr>dc := Name entity\<rparr> else res2)"

text \<open>
  \<open>visits client cur rs\<close>: \<open>rs\<close> is the finite sequence of nodes fetched by a walk that
  starts at \<open>cur\<close>: it follows the parent pointers the remote side reports and ends at
  the first failing fetch, the first \<^verbatim>\<open>Datacenter\<close> or the first node without parent.
\<close>

fun visits :: "client \<Rightarrow> ManagedObjectReference \<Rightarrow> ManagedObjectReference list \<Rightarrow> bool" where
  "visits client cur [] = False"
| "visits client cur (r # rs) =
     (r = cur \<and>
      (case client r of
         Inl err \<Rightarrow> rs = []
       | Inr entity \<Rightarrow>
           (if Type r = ''Datacenter'' then rs = []
            else (case Parent entity of None \<Rightarrow> rs = [] | Some p \<Rightarrow> visits client p rs))))"

fun outcome :: "client \<Rightarrow> ManagedObjectReference list \<Rightarrow> Parents \<Rightarrow> Parents loop_exit" where
  "outcome client [] res = Break res"
| "outcome client (r # rs) res =
     (case client r of
        Inl err \<Rightarrow> Return \<lparr>dc = ''ERROR'', cluster = ''ERROR'', spod = ''ERROR''\<rparr>
      | Inr entity \<Rightarrow> outcome client rs (record_node r entity res))"

definition informative :: "ManagedObjectReference \<Rightarrow> bool" where
  "informative r \<longleftrightarrow>
     Type r = ''StoragePod'' \<or> Type r = ''ClusterComputeResource'' \<or> Type r = ''Datacenter''"

text \<open>The nodes of a visited sequence that carry a given type tag, in visiting order.\<close>

definition tagged :: "string \<Rightarrow> ManagedObjectReference list \<Rightarrow> ManagedObjectReference list" where
  "tagged t rs = filter (\<lambda>r. Type r = t) rs"

text \<open>
  \<open>leads_to client cur pre d\<close>: the parent pointers that the remote side reports lead
  from \<open>cur\<close> through the nodes \<open>pre\<close>, each of which can be fetched and names the
  next as its parent, to the node \<open>d\<close>. Nothing is said about \<open>d\<close> or its parent.
\<close>

fun leads_to ::
  "client \<Rightarrow> ManagedObjectReference \<Rightarrow> ManagedObjectReference list \<Rightarrow> ManagedObjectReference \<Rightarrow> bool"
where
  "leads_to client cur [] d = (cur = d)"
| "leads_to client cur (r # rs) d =
     (r = cur \<and>
      (case client r of
         Inl err \<Rightarrow> False
       | Inr entity \<Rightarrow>
           (case Parent entity of None \<Rightarrow> False | Some p \<Rightarrow> leads_to client p rs d)))"

section \<open>Inventories used as concrete inputs\<close>

definition mk_ref :: "string \<Rightarrow> string \<Rightarrow> ManagedObjectReference" where
  "mk_ref t v = \<lparr>Type = t, Value = v\<rparr>"

definition mk_entity :: "string \<Rightarrow> ManagedObjectReference option \<Rightarrow> ManagedEntity" where
  "mk_entity n p = \<lparr>Name = n, Parent = p\<rparr>"

definition NONE :: Parents where
  "NONE = \<lparr>dc = ''NONE'', cluster = ''NONE'', spod = ''NONE''\<rparr>"

definition ERROR :: Parents where
  "ERROR = \<lparr>dc = ''ERROR'', cluster = ''ERROR'', spod = ''ERROR''\<rparr>"

definition P1 :: ManagedObjectReference where "P1 = mk_ref ''ResourcePool'' ''resgroup-1''"
definition P2 :: ManagedObjectReference where "P2 = mk_ref ''ClusterComputeResource'' ''domain-c2''"
definition P3 :: ManagedObjectReference where "P3 = mk_ref ''Datacenter'' ''datacenter-3''"

definition S1 :: ManagedObjectReference where "S1 = mk_ref ''StoragePod'' ''group-p11''"
definition K2 :: ManagedObjectReference where "K2 = mk_ref ''ClusterComputeResource'' ''domain-c12''"
definition F3 :: ManagedObjectReference where "F3 = mk_ref ''Folder'' ''group-h13''"
definition D4 :: ManagedObjectReference where "D4 = mk_ref ''Datacenter'' ''datacenter-14''"
definition F0 :: ManagedObjectReference where "F0 = mk_ref ''Folder'' ''group-d1''"

definition B1 :: ManagedObjectReference where "B1 = mk_ref ''ResourcePool'' ''resgroup-21''"
definition B2 :: ManagedObjectReference where "B2 = mk_ref ''ClusterComputeResource'' ''domain-c22''"
definition B3 :: ManagedObjectReference where "B3 = mk_ref ''Datacenter'' ''datacenter-23''"

definition V1 :: ManagedObjectReference where "V1 = mk_ref ''Folder'' ''group-v31''"

definition L1 :: ManagedObjectReference where "L1 = mk_ref ''Folder'' ''group-v41''"
definition L2 :: ManagedObjectReference where "L2 = mk_ref ''Folder'' ''group-v42''"

text \<open>
  An acyclic inventory. \<open>P1\<close>, \<open>P2\<close>, \<open>P3\<close>: a resource pool in cluster \<open>ClusterX\<close> in
  datacenter \<open>DC1\<close>, which has no parent. \<open>V1\<close>: a folder directly under \<open>DC1\<close>.
  \<open>S1\<close>, \<open>K2\<close>, \<open>F3\<close>, \<open>D4\<close>, \<open>F0\<close>: a storage pod and a cluster on one path, below a
  datacenter that has a parent folder. \<open>B1\<close>, \<open>B2\<close>, \<open>B3\<close>: a path whose datacenter
  cannot be fetched. Every other reference is unknown to the remote side.
\<close>

definition inventory :: client where
  "inventory r =
     (if r = P1 then Inr (mk_entity ''Resources'' (Some P2))
      else if r = P2 then Inr (mk_entity ''ClusterX'' (Some P3))
      else if r = P3 then Inr (mk_entity ''DC1'' None)
      else if r = V1 then Inr (mk_entity ''vm'' (Some P3))
      else if r = S1 then Inr (mk_entity ''PodA'' (Some K2))
      else if r = K2 then Inr (mk_entity ''ClusterY'' (Some F3))
      else if r = F3 then Inr (mk_entity ''host'' (Some D4))
      else if r = D4 then Inr (mk_entity ''DC2'' (Some F0))
      else if r = F0 then Inr (mk_entity ''Datacenters'' None)
      else if r = B1 then Inr (mk_entity ''Resources'' (Some B2))
      else if r = B2 then Inr (mk_entity ''ClusterB'' (Some B3))
      else Inl (Fault ''ManagedObjectNotFound''))"

definition inventory_rank :: "ManagedObjectReference \<Rightarrow> nat" where
  "inventory_rank r =
     (if r = P1 \<or> r = F3 \<or> r = B1 then 2
      else if r = P2 \<or> r = V1 \<or> r = D4 \<or> r = B2 then 1
      else if r = K2 then 3
      else if r = S1 then 4
      else 0)"

text \<open>An inventory whose parent pointers form a cycle of two folders.\<close>

definition cyclic_inventory :: client where
  "cyclic_inventory r =
     (if r = L1 then Inr (mk_entity ''a'' (Some L2))
      else if r = L2 then Inr (mk_entity ''b'' (Some L1))
      else Inl (Fault ''ManagedObjectNotFound''))"

definition objC :: ManagedEntity where "objC = mk_entity ''C'' (Some P1)"
definition objD :: ManagedEntity where "objD = mk_entity ''D'' (Some P1)"
definition objB :: ManagedEntity where "objB = mk_entity ''B'' None"
definition objE :: ManagedEntity where "objE = mk_entity ''E'' (Some B1)"
definition objG :: ManagedEntity where "objG = mk_entity ''G'' (Some S1)"
definition objH :: ManagedEntity where "objH = mk_entity ''H'' (Some B1)"
definition objL :: ManagedEntity where "objL = mk_entity ''L'' (Some L1)"

definition vm1 :: VirtualMachine where
  "vm1 = \<lparr>Entity = mk_entity ''vm1'' (Some V1), ResourcePool = Some P1, RuntimeHost = None\<rparr>"

definition vm2 :: VirtualMachine where
  "vm2 = \<lparr>Entity = mk_entity ''vm2'' (Some V1), ResourcePool = None, RuntimeHost = None\<rparr>"

definition vm3 :: VirtualMachine where
  "vm3 = \<lparr>Entity = mk_entity ''vm3'' (Some V1), ResourcePool = Some B3, RuntimeHost = None\<rparr>"

definition start :: world where
  "start = \<lparr>pcache = NewParentsCache, trace = []\<rparr>"

lemmas ref_defs =
  mk_ref_def P1_def P2_def P3_def S1_def K2_def F3_def D4_def F0_def B1_def B2_def B3_def
  V1_def L1_def L2_def

lemmas obj_defs =
  mk_entity_def objC_def objD_def objB_def objE_def objG_def objH_def objL_def vm1_def vm2_def vm3_def

section \<open>Lemmas on events and walks\<close>

lemma logged_simps:
  "trace (logged e w) = trace w @ [e]" "pcache (logged e w) = pcache w"
  by (simp_all add: logged_def)

lemma fetched_simps:
  "trace (fetched rs w) = trace w @ map RetrieveOne rs" "pcache (fetched rs w) = pcache w"
  by (simp_all add: fetched_def)

lemma fetched_Cons: "fetched (r # rs) w = fetched rs (logged (RetrieveOne r) w)"
  by (simp add: fetched_def logged_def)

lemma fetched_Nil: "fetched [] w = w"
  by (simp add: fetched_def)

lemma fetches_append: "fetches (es @ es') = fetches es @ fetches es'"
  by (induction es rule: fetches.induct) simp_all

lemma fetches_map_RetrieveOne: "fetches (map RetrieveOne rs) = rs"
  by (induction rs) simp_all

lemma issued_self: "issued w w = []"
  by (simp add: issued_def)

lemma issued_logged: "issued w (logged e w) = [e]"
  by (simp add: issued_def logged_def)

lemma issued_trace: "trace w' = trace w @ es \<Longrightarrow> issued w w' = es"
  by (simp add: issued_def)

text \<open>A finite sequence of visited nodes is a terminating walk with that outcome.\<close>

lemma walk_visits:
  "visits client cur rs \<Longrightarrow> walk client cur res w = Some (outcome client rs res, fetched rs w)"
proof (induction rs arbitrary: cur res w)
  case Nil
  then show ?case by simp
next
  case (Cons r rs)
  from Cons.prems have rc: "r = cur" by simp
  show ?case
  proof (cases "client cur")
    case (Inl err)
    with Cons.prems rc show ?thesis
      by (subst walk.simps) (simp add: fetched_Cons fetched_Nil)
  next
    case (Inr ent)
    show ?thesis
    proof (cases "Type cur = ''Datacenter''")
      case True
      with Cons.prems rc Inr show ?thesis
        by (subst walk.simps) (simp add: fetched_Cons fetched_Nil record_node_def Let_def)
    next
      case nd: False
      show ?thesis
      proof (cases "Parent ent")
        case None
        with Cons.prems rc Inr nd show ?thesis
          by (subst walk.simps) (simp add: fetched_Cons fetched_Nil record_node_def Let_def)
      next
        case (Some p)
        with Cons.prems rc Inr nd have v: "visits client p rs" by simp
        show ?thesis
          using Cons.IH[OF v] rc Inr nd Some
          by (subst walk.simps) (simp add: fetched_Cons record_node_def Let_def)
      qed
    qed
  qed
qed

text \<open>Conversely, a walk that returns has visited such a finite sequence.\<close>

lemma walk_Some_visits:
  assumes "walk client cur res w = Some y"
  shows "\<exists>rs. visits client cur rs \<and> y = (outcome client rs res, fetched rs w)"
proof (rule walk.raw_induct
    [where P = "\<lambda>client cur res w y.
                  \<exists>rs. visits client cur rs \<and> y = (outcome client rs res, fetched rs w)",
     OF _ assms])
  fix f :: "client \<Rightarrow> ManagedObjectReference \<Rightarrow> Parents \<Rightarrow> world
            \<Rightarrow> (Parents loop_exit \<times> world) option"
  fix client cur res w y
  assume IH: "\<And>client cur res w y. f client cur res w = Some y \<Longrightarrow>
                \<exists>rs. visits client cur rs \<and> y = (outcome client rs res, fetched rs w)"
  assume body: "(let w1 = logged (RetrieveOne cur) w
      in case client cur of
         Inl err \<Rightarrow> Some (Return \<lparr>dc = ''ERROR'', cluster = ''ERROR'', spod = ''ERROR''\<rparr>, w1)
         | Inr entity \<Rightarrow>
             let res1 = if Type cur = ''StoragePod'' then res\<lparr>spod := Name entity\<rparr> else res;
                 res2 = if Type cur = ''ClusterComputeResource''
                   then res1\<lparr>cluster := Name entity\<rparr> else res1
             in if Type cur = ''Datacenter''
                then Some (Break (res2\<lparr>dc := Name entity\<rparr>), w1)
                else case Parent entity of None \<Rightarrow> Some (Break res2, w1)
                     | Some p \<Rightarrow> f client p res2 w1) = Some y"
  show "\<exists>rs. visits client cur rs \<and> y = (outcome client rs res, fetched rs w)"
  proof (cases "client cur")
    case (Inl err)
    with body have "visits client cur [cur] \<and> y = (outcome client [cur] res, fetched [cur] w)"
      by (auto simp: fetched_Cons fetched_Nil)
    then show ?thesis by blast
  next
    case (Inr ent)
    show ?thesis
    proof (cases "Type cur = ''Datacenter'' \<or> Parent ent = None")
      case True
      with body Inr
      have "visits client cur [cur] \<and> y = (outcome client [cur] res, fetched [cur] w)"
        by (auto simp: fetched_Cons fetched_Nil record_node_def Let_def)
      then show ?thesis by blast
    next
      case False
      then obtain p where p: "Parent ent = Some p" and nd: "Type cur \<noteq> ''Datacenter''"
        by auto
      from body Inr p nd
      have "f client p (record_node cur ent res) (logged (RetrieveOne cur) w) = Some y"
        by (simp add: record_node_def Let_def)
      from IH[OF this] obtain rs where
        rs: "visits client p rs"
            "y = (outcome client rs (record_node cur ent res),
                  fetched rs (logged (RetrieveOne cur) w))"
        by blast
      with Inr p nd
      have "visits client cur (cur # rs) \<and>
            y = (outcome client (cur # rs) res, fetched (cur # rs) w)"
        by (simp add: fetched_Cons)
      then show ?thesis by blast
    qed
  qed
qed

text \<open>The record of a walk is lost as soon as one fetch fails.\<close>

lemma outcome_failure:
  "q \<in> set rs \<Longrightarrow> client q = Inl err \<Longrightarrow>
   outcome client rs res = Return \<lparr>dc = ''ERROR'', cluster = ''ERROR'', spod = ''ERROR''\<rparr>"
proof (induction rs arbitrary: res)
  case Nil
  then show ?case by simp
next
  case (Cons r rs)
  then show ?case
    by (cases "client r") auto
qed

lemma outcome_Return:
  "outcome client rs res = Return r \<Longrightarrow> \<exists>q\<in>set rs. \<exists>err. client q = Inl err"
proof (induction rs arbitrary: res)
  case Nil
  then show ?case by simp
next
  case (Cons a rs)
  then show ?case
    by (cases "client a") auto
qed

text \<open>The three ways in which \<^verbatim>\<open>getParents\<close> returns for an object with a parent.\<close>

lemma getParents_hit:
  "Parent me = Some p \<Longrightarrow> cache (pcache w) p = Some r \<Longrightarrow>
   getParents client me w = Some (r, logged (CacheGet p) w)"
  by (simp add: getParents_def Get_def)

lemma getParents_miss:
  assumes "Parent me = Some p" and "cache (pcache w) p = None" and "visits client p rs"
  shows "getParents client me w =
           Some (case outcome client rs \<lparr>dc = ''NONE'', cluster = ''NONE'', spod = ''NONE''\<rparr> of
                   Return r \<Rightarrow> (r, fetched rs (logged (CacheGet p) w))
                 | Break r \<Rightarrow>
                     (r, logged (CacheAdd p r)
                           ((fetched rs (logged (CacheGet p) w))\<lparr>pcache := Add (pcache w) p r\<rparr>)))"
  using assms walk_visits [OF assms(3)]
  by (simp add: getParents_def Get_def fetched_simps logged_simps split: loop_exit.split)

lemma getParents_cases:
  assumes "getParents client me w = Some (r, w')"
  obtains
    (root) "Parent me = None" "r = \<lparr>dc = ''NONE'', cluster = ''NONE'', spod = ''NONE''\<rparr>" "w' = w"
  | (hit) p where "Parent me = Some p" "cache (pcache w) p = Some r" "w' = logged (CacheGet p) w"
  | (failed) p rs where "Parent me = Some p" "cache (pcache w) p = None" "visits client p rs"
      "outcome client rs \<lparr>dc = ''NONE'', cluster = ''NONE'', spod = ''NONE''\<rparr> = Return r"
      "w' = fetched rs (logged (CacheGet p) w)"
  | (walked) p rs where "Parent me = Some p" "cache (pcache w) p = None" "visits client p rs"
      "outcome client rs \<lparr>dc = ''NONE'', cluster = ''NONE'', spod = ''NONE''\<rparr> = Break r"
      "w' = logged (CacheAdd p r)
              ((fetched rs (logged (CacheGet p) w))\<lparr>pcache := Add (pcache w) p r\<rparr>)"
proof (cases "Parent me")
  case None
  with assms root show ?thesis
    by (simp add: getParents_def)
next
  case (Some p)
  show ?thesis
  proof (cases "cache (pcache w) p")
    case (Some v)
    with assms \<open>Parent me = Some p\<close> hit show ?thesis
      by (simp add: getParents_def Get_def)
  next
    case None
    with assms \<open>Parent me = Some p\<close>
    obtain y where y: "walk client p \<lparr>dc = ''NONE'', cluster = ''NONE'', spod = ''NONE''\<rparr>
                         (logged (CacheGet p) w) = Some y"
      by (auto simp: getParents_def Get_def split: option.splits)
    from walk_Some_visits [OF y] obtain rs where
      rs: "visits client p rs"
          "y = (outcome client rs \<lparr>dc = ''NONE'', cluster = ''NONE'', spod = ''NONE''\<rparr>,
                fetched rs (logged (CacheGet p) w))"
      by blast
    from assms getParents_miss [OF \<open>Parent me = Some p\<close> None rs(1)]
    have eq: "(r, w') =
           (case outcome client rs \<lparr>dc = ''NONE'', cluster = ''NONE'', spod = ''NONE''\<rparr> of
              Return r \<Rightarrow> (r, fetched rs (logged (CacheGet p) w))
            | Break r \<Rightarrow>
                (r, logged (CacheAdd p r)
                      ((fetched rs (logged (CacheGet p) w))\<lparr>pcache := Add (pcache w) p r\<rparr>)))"
      by simp
    show ?thesis
    proof (cases "outcome client rs \<lparr>dc = ''NONE'', cluster = ''NONE'', spod = ''NONE''\<rparr>")
      case (Break r')
      with eq \<open>Parent me = Some p\<close> None rs(1) walked show ?thesis
        by simp
    next
      case (Return r')
      with eq \<open>Parent me = Some p\<close> None rs(1) failed show ?thesis
        by simp
    qed
  qed
qed

text \<open>No call replaces or removes a cache entry: an entry, once present, stays.\<close>

lemma getParents_keeps_entries:
  assumes "getParents client me w = Some (r, w')" and "cache (pcache w) q = Some v"
  shows "cache (pcache w') q = Some v"
  using assms(1)
proof (cases rule: getParents_cases)
  case (walked p rs)
  with assms(2) have "q \<noteq> p" by auto
  with walked assms(2) show ?thesis
    by (simp add: logged_simps Add_def)
qed (use assms(2) in \<open>simp_all add: logged_simps fetched_simps\<close>)

lemma resolve_each_keeps_entries:
  "resolve_each client mes w = Some (rs, w') \<Longrightarrow> cache (pcache w) q = Some v \<Longrightarrow>
   cache (pcache w') q = Some v"
proof (induction mes arbitrary: w rs)
  case Nil
  then show ?case by simp
next
  case (Cons me mes)
  from Cons.prems(1) obtain tmp w1 rs' where
    step: "getParents client me w = Some (tmp, w1)" and
    rest: "resolve_each client mes w1 = Some (rs', w')"
    by (auto split: option.splits)
  from getParents_keeps_entries [OF step Cons.prems(2)] Cons.IH [OF rest] show ?case
    by simp
qed

text \<open>The events of one call.\<close>

lemma issued_fetched_CacheGet:
  "issued w (fetched rs (logged (CacheGet p) w)) = CacheGet p # map RetrieveOne rs"
  by (simp add: issued_def fetched_simps logged_simps)

lemma issued_walked:
  "issued w (logged (CacheAdd p r) ((fetched rs (logged (CacheGet p) w))\<lparr>pcache := c\<rparr>)) =
     CacheGet p # map RetrieveOne rs @ [CacheAdd p r]"
  by (simp add: issued_def fetched_simps logged_simps)

text \<open>Visiting one more node at the end of a sequence.\<close>

lemma outcome_snoc:
  "outcome client (rs @ [r]) res =
     (case outcome client rs res of
        Return x \<Rightarrow> Return x
      | Break res' \<Rightarrow>
          (case client r of
             Inl err \<Rightarrow> Return \<lparr>dc = ''ERROR'', cluster = ''ERROR'', spod = ''ERROR''\<rparr>
           | Inr ent \<Rightarrow> Break (record_node r ent res')))"
proof (induction rs arbitrary: res)
  case Nil
  show ?case by (simp split: sum.split)
next
  case (Cons a rs)
  then show ?case by (simp split: sum.split)
qed

lemma tagged_snoc: "tagged t (rs @ [r]) = (if Type r = t then tagged t rs @ [r] else tagged t rs)"
  by (simp add: tagged_def)

lemma tagged_Nil: "tagged t [] = []"
  by (simp add: tagged_def)

text \<open>
  In a walk without failure, the cluster field holds the name of the last visited node
  tagged \<^verbatim>\<open>ClusterComputeResource\<close>, the storage-pod field that of the last visited
  node tagged \<^verbatim>\<open>StoragePod\<close>.
\<close>

lemma outcome_cluster:
  "outcome client rs res = Break res' \<Longrightarrow> tagged ''ClusterComputeResource'' rs \<noteq> [] \<Longrightarrow>
   client (last (tagged ''ClusterComputeResource'' rs)) = Inr ce \<Longrightarrow> cluster res' = Name ce"
proof (induction rs arbitrary: res' rule: rev_induct)
  case Nil
  then show ?case by (simp add: tagged_Nil)
next
  case (snoc r rs)
  from snoc.prems(1) obtain mid ent where
    mid: "outcome client rs res = Break mid" and ent: "client r = Inr ent" and
    res': "res' = record_node r ent mid"
    by (auto simp: outcome_snoc split: loop_exit.splits sum.splits)
  show ?case
  proof (cases "Type r = ''ClusterComputeResource''")
    case True
    with snoc.prems(3) ent res' show ?thesis
      by (simp add: tagged_snoc record_node_def)
  next
    case False
    with snoc.prems(2,3) snoc.IH [OF mid] res' show ?thesis
      by (simp add: tagged_snoc record_node_def)
  qed
qed

lemma outcome_spod:
  "outcome client rs res = Break res' \<Longrightarrow> tagged ''StoragePod'' rs \<noteq> [] \<Longrightarrow>
   client (last (tagged ''StoragePod'' rs)) = Inr se \<Longrightarrow> spod res' = Name se"
proof (induction rs arbitrary: res' rule: rev_induct)
  case Nil
  then show ?case by (simp add: tagged_Nil)
next
  case (snoc r rs)
  from snoc.prems(1) obtain mid ent where
    mid: "outcome client rs res = Break mid" and ent: "client r = Inr ent" and
    res': "res' = record_node r ent mid"
    by (auto simp: outcome_snoc split: loop_exit.splits sum.splits)
  show ?case
  proof (cases "Type r = ''StoragePod''")
    case True
    with snoc.prems(3) ent res' show ?thesis
      by (simp add: tagged_snoc record_node_def)
  next
    case False
    with snoc.prems(2,3) snoc.IH [OF mid] res' show ?thesis
      by (simp add: tagged_snoc record_node_def)
  qed
qed

lemma outcome_all_fetched:
  "\<forall>r\<in>set rs. \<exists>ent. client r = Inr ent \<Longrightarrow> \<exists>res'. outcome client rs res = Break res'"
proof (induction rs arbitrary: res)
  case Nil
  show ?case by simp
next
  case (Cons a rs)
  then show ?case by auto
qed

text \<open>Nodes with any other tag leave the record as it is.\<close>

lemma record_node_transparent: "\<not> informative r \<Longrightarrow> record_node r ent res = res"
  by (simp add: informative_def record_node_def)

lemma outcome_informative:
  "\<forall>r\<in>set rs. \<exists>ent. client r = Inr ent \<Longrightarrow>
   outcome client (filter informative rs) res = outcome client rs res"
proof (induction rs arbitrary: res)
  case Nil
  show ?case by simp
next
  case (Cons a rs)
  then show ?case by (auto simp: record_node_transparent)
qed

text \<open>
  A walk returns exactly when the parent pointers lead to an end. Where they decrease
  a rank they do; where they stay inside a set of fetchable nodes without datacenter
  they do not.
\<close>

lemma ranked_visits:
  fixes rank :: "ManagedObjectReference \<Rightarrow> nat"
  assumes "\<forall>r ent q. client r = Inr ent \<and> Parent ent = Some q \<longrightarrow> rank q < rank r"
  shows "\<exists>rs. visits client cur rs"
proof (induction "rank cur" arbitrary: cur rule: less_induct)
  case less
  show ?case
  proof (cases "client cur")
    case (Inl err)
    then have "visits client cur [cur]" by simp
    then show ?thesis by blast
  next
    case (Inr ent)
    show ?thesis
    proof (cases "Type cur = ''Datacenter'' \<or> Parent ent = None")
      case True
      with Inr have "visits client cur [cur]" by auto
      then show ?thesis by blast
    next
      case False
      then obtain q where q: "Parent ent = Some q" and nd: "Type cur \<noteq> ''Datacenter''"
        by auto
      from assms Inr q have "rank q < rank cur" by blast
      from less [OF this] obtain rs where "visits client q rs" by blast
      with Inr q nd have "visits client cur (cur # rs)" by simp
      then show ?thesis by blast
    qed
  qed
qed

lemma cycle_no_visits:
  assumes "\<forall>r\<in>S. Type r \<noteq> ''Datacenter'' \<and>
                  (\<exists>ent q. client r = Inr ent \<and> Parent ent = Some q \<and> q \<in> S)"
  shows "cur \<in> S \<Longrightarrow> \<not> visits client cur rs"
proof (induction rs arbitrary: cur)
  case Nil
  show ?case by simp
next
  case (Cons a rs)
  from assms Cons.prems obtain ent q where
    "Type cur \<noteq> ''Datacenter''" "client cur = Inr ent" "Parent ent = Some q" "q \<in> S"
    by blast
  with Cons.IH [of q] show ?case by auto
qed

lemma getParents_returns:
  assumes "\<And>p. Parent me = Some p \<Longrightarrow> \<exists>rs. visits client p rs"
  shows "\<exists>y. getParents client me w = Some y"
proof (cases "Parent me")
  case None
  then show ?thesis by (simp add: getParents_def)
next
  case (Some p)
  show ?thesis
  proof (cases "cache (pcache w) p")
    case None
    from assms [OF Some] obtain rs where "visits client p rs" by blast
    from getParents_miss [OF Some None this] show ?thesis by blast
  next
    case (Some r)
    from getParents_hit [OF \<open>Parent me = Some p\<close> this] show ?thesis by blast
  qed
qed

lemma getParents_diverges:
  assumes "Parent me = Some p" and "cache (pcache w) p = None"
    and "\<And>rs. \<not> visits client p rs"
  shows "getParents client me w = None"
proof (cases "getParents client me w")
  case None
  then show ?thesis .
next
  case (Some y)
  obtain r w' where "y = (r, w')" by (cases y)
  with Some have "getParents client me w = Some (r, w')" by simp
  then show ?thesis
    using assms by (cases rule: getParents_cases) auto
qed

text \<open>A path of parent pointers to a datacenter is what the walk visits.\<close>

lemma leads_to_fetched:
  "leads_to client cur pre d \<Longrightarrow> \<forall>r\<in>set pre. \<exists>ent. client r = Inr ent"
proof (induction pre arbitrary: cur)
  case Nil
  show ?case by simp
next
  case (Cons a pre)
  then show ?case
    by (auto split: sum.splits option.splits)
qed

lemma leads_to_visits:
  assumes "\<forall>r\<in>set pre. Type r \<noteq> ''Datacenter''"
    and "Type d = ''Datacenter''" and "client d = Inr ent"
  shows "leads_to client cur pre d \<Longrightarrow> visits client cur (pre @ [d])"
  using assms(1)
proof (induction pre arbitrary: cur)
  case Nil
  with assms(2,3) show ?case by simp
next
  case (Cons a pre)
  then show ?case
    by (auto split: sum.splits option.splits)
qed

text \<open>Only the last visited node can be a datacenter.\<close>

lemma visits_Datacenter_last:
  "visits client cur rs \<Longrightarrow> \<forall>r\<in>set (butlast rs). Type r \<noteq> ''Datacenter''"
proof (induction rs arbitrary: cur)
  case Nil
  show ?case by simp
next
  case (Cons a rs)
  then show ?case
    by (auto split: sum.splits option.splits if_splits)
qed

section \<open>Properties of the resolvers\<close>

subsection \<open>Objects without parent\<close>

text \<open>
  C1. For an object whose \<^verbatim>\<open>Parent\<close> is \<^verbatim>\<open>nil\<close>, \<^verbatim>\<open>getParents\<close> returns the record
  with \<open>NONE\<close> in all three fields and leaves the world as it found it: the trace
  gains no event (no remote fetch, no cache lookup, no cache insertion) and the cache
  is the same.
\<close>

theorem getParents_no_parent:
  "Parent me = None \<Longrightarrow>
   getParents client me w = Some (\<lparr>dc = ''NONE'', cluster = ''NONE'', spod = ''NONE''\<rparr>, w)"
  by (simp add: getParents_def)

theorem getParents_no_parent_witness:
  "Parent objB = None \<and>
   getParents inventory objB start =
     Some (\<lparr>dc = ''NONE'', cluster = ''NONE'', spod = ''NONE''\<rparr>, start)"
  using getParents_no_parent [of objB inventory start] by (simp add: obj_defs)

subsection \<open>Objects that share a parent\<close>

text \<open>
  C2, as stated, promises that after the first resolution for a parent reference no
  later one fetches anything. A walk that ends in a failed fetch inserts nothing, so
  the next object with the same parent walks again: \<open>objE\<close> and \<open>objH\<close> share the
  parent \<open>B1\<close>, the fetch of \<open>B3\<close> fails, and the second resolution issues the same
  three fetches as the first.
\<close>

theorem second_call_fetches_again_counterexample:
  "Parent objE = Some B1 \<and> Parent objH = Some B1 \<and>
   getParents inventory objE start =
     Some (ERROR, \<lparr>pcache = NewParentsCache,
                   trace = [CacheGet B1, RetrieveOne B1, RetrieveOne B2, RetrieveOne B3]\<rparr>) \<and>
   getParents inventory objH
       \<lparr>pcache = NewParentsCache,
        trace = [CacheGet B1, RetrieveOne B1, RetrieveOne B2, RetrieveOne B3]\<rparr> =
     Some (ERROR, \<lparr>pcache = NewParentsCache,
                   trace = [CacheGet B1, RetrieveOne B1, RetrieveOne B2, RetrieveOne B3,
                            CacheGet B1, RetrieveOne B1, RetrieveOne B2, RetrieveOne B3]\<rparr>) \<and>
   fetches (issued
       \<lparr>pcache = NewParentsCache,
        trace = [CacheGet B1, RetrieveOne B1, RetrieveOne B2, RetrieveOne B3]\<rparr>
       \<lparr>pcache = NewParentsCache,
        trace = [CacheGet B1, RetrieveOne B1, RetrieveOne B2, RetrieveOne B3,
                 CacheGet B1, RetrieveOne B1, RetrieveOne B2, RetrieveOne B3]\<rparr>) = [B1, B2, B3]"
proof -
  have v: "visits inventory B1 [B1, B2, B3]"
    by (simp add: inventory_def ref_defs mk_entity_def)
  have o: "outcome inventory [B1, B2, B3] res = Return ERROR" for res
    by (simp add: inventory_def ref_defs mk_entity_def ERROR_def)
  have pE: "Parent objE = Some B1" and pH: "Parent objH = Some B1"
    by (simp_all add: obj_defs)
  have c1: "cache (pcache start) B1 = None"
    by (simp add: start_def NewParentsCache_def)
  have c2: "cache (pcache \<lparr>pcache = NewParentsCache,
              trace = [CacheGet B1, RetrieveOne B1, RetrieveOne B2, RetrieveOne B3]\<rparr>) B1 = None"
    by (simp add: NewParentsCache_def)
  show ?thesis
    using getParents_miss [OF pE c1 v, unfolded o] getParents_miss [OF pH c2 v, unfolded o] pE pH
    by (simp add: fetched_def logged_def start_def issued_def)
qed

text \<open>
  C2, amended. Let a resolution for an object with parent reference \<open>p\<close> return
  with every fetch it issued successful (none, if it was itself answered by the
  cache). Then, after any further resolutions of the same scrape, a resolution for any
  object with the same parent reference returns the same record, and its only event
  is the cache lookup of \<open>p\<close>: it fetches nothing and inserts nothing.
\<close>

theorem later_calls_hit_cache:
  assumes "Parent me = Some p" and "Parent me' = Some p"
    and "getParents client me w = Some (r, w1)"
    and "\<forall>q\<in>set (fetches (issued w w1)). \<exists>ent. client q = Inr ent"
    and "resolve_each client mes w1 = Some (rs, w2)"
  shows "getParents client me' w2 = Some (r, logged (CacheGet p) w2)"
proof -
  have "cache (pcache w1) p = Some r"
    using assms(3)
  proof (cases rule: getParents_cases)
    case root
    with assms(1) show ?thesis by simp
  next
    case (hit p')
    with assms(1) show ?thesis by (simp add: logged_simps)
  next
    case (failed p' ns)
    from outcome_Return [OF failed(4)] obtain q err where
      q: "q \<in> set ns" "client q = Inl err"
      by blast
    from failed(5) have "fetches (issued w w1) = ns"
      by (simp add: issued_fetched_CacheGet fetches_map_RetrieveOne)
    with assms(4) q show ?thesis by auto
  next
    case (walked p' ns)
    with assms(1) show ?thesis by (simp add: logged_simps Add_def)
  qed
  from resolve_each_keeps_entries [OF assms(5) this] assms(2) show ?thesis
    by (rule getParents_hit [rotated])
qed

theorem later_calls_hit_cache_witness:
  "Parent objC = Some P1 \<and> Parent objD = Some P1 \<and>
   getParents inventory objC start =
     Some (\<lparr>dc = ''DC1'', cluster = ''ClusterX'', spod = ''NONE''\<rparr>,
           \<lparr>pcache = Add NewParentsCache P1 \<lparr>dc = ''DC1'', cluster = ''ClusterX'', spod = ''NONE''\<rparr>,
            trace = [CacheGet P1, RetrieveOne P1, RetrieveOne P2, RetrieveOne P3,
                     CacheAdd P1 \<lparr>dc = ''DC1'', cluster = ''ClusterX'', spod = ''NONE''\<rparr>]\<rparr>) \<and>
   getParents inventory objD
       \<lparr>pcache = Add NewParentsCache P1 \<lparr>dc = ''DC1'', cluster = ''ClusterX'', spod = ''NONE''\<rparr>,
        trace = [CacheGet P1, RetrieveOne P1, RetrieveOne P2, RetrieveOne P3,
                 CacheAdd P1 \<lparr>dc = ''DC1'', cluster = ''ClusterX'', spod = ''NONE''\<rparr>]\<rparr> =
     Some (\<lparr>dc = ''DC1'', cluster = ''ClusterX'', spod = ''NONE''\<rparr>,
           \<lparr>pcache = Add NewParentsCache P1 \<lparr>dc = ''DC1'', cluster = ''ClusterX'', spod = ''NONE''\<rparr>,
            trace = [CacheGet P1, RetrieveOne P1, RetrieveOne P2, RetrieveOne P3,
                     CacheAdd P1 \<lparr>dc = ''DC1'', cluster = ''ClusterX'', spod = ''NONE''\<rparr>,
                     CacheGet P1]\<rparr>)"
proof -
  let ?r = "\<lparr>dc = ''DC1'', cluster = ''ClusterX'', spod = ''NONE''\<rparr>"
  let ?w1 = "\<lparr>pcache = Add NewParentsCache P1 ?r,
              trace = [CacheGet P1, RetrieveOne P1, RetrieveOne P2, RetrieveOne P3,
                       CacheAdd P1 ?r]\<rparr>"
  have v: "visits inventory P1 [P1, P2, P3]"
    by (simp add: inventory_def ref_defs mk_entity_def)
  have o: "outcome inventory [P1, P2, P3] \<lparr>dc = ''NONE'', cluster = ''NONE'', spod = ''NONE''\<rparr>
             = Break ?r"
    by (simp add: inventory_def ref_defs mk_entity_def record_node_def)
  have pC: "Parent objC = Some P1" and pD: "Parent objD = Some P1"
    by (simp_all add: obj_defs)
  have c: "cache (pcache start) P1 = None"
    by (simp add: start_def NewParentsCache_def)
  have first: "getParents inventory objC start = Some (?r, ?w1)"
    using getParents_miss [OF pC c v, unfolded o]
    by (simp add: fetched_def logged_def start_def)
  have ok: "\<forall>q\<in>set (fetches (issued start ?w1)). \<exists>ent. inventory q = Inr ent"
    by (simp add: issued_def start_def inventory_def ref_defs)
  have none: "resolve_each inventory [] ?w1 = Some ([], ?w1)"
    by simp
  from later_calls_hit_cache [OF pC pD first ok none] pC pD first show ?thesis
    by (simp add: logged_def)
qed

subsection \<open>The walk stops at a datacenter\<close>

text \<open>
  C3. Let the parent pointers lead from the parent of an object, through nodes none of
  which is tagged \<^verbatim>\<open>Datacenter\<close>, to a node \<open>d\<close> tagged \<^verbatim>\<open>Datacenter\<close> whose fetch
  succeeds, and let the cache have no entry for that parent. Then \<^verbatim>\<open>getParents\<close>
  returns a record whose \<open>dc\<close> field is the fetched name of \<open>d\<close>, and the fetches it
  issued are those of the nodes up to and including \<open>d\<close>: nothing is fetched past the
  datacenter, whatever parent it has. Moreover, in every call that returns, no fetched
  node other than the last one is tagged \<^verbatim>\<open>Datacenter\<close>.
\<close>

theorem getParents_stops_at_Datacenter:
  "(Parent me = Some p \<and> cache (pcache w) p = None \<and> leads_to client p pre d \<and>
    (\<forall>r\<in>set pre. Type r \<noteq> ''Datacenter'') \<and>
    Type d = ''Datacenter'' \<and> client d = Inr ent \<longrightarrow>
      (\<exists>res w'. getParents client me w = Some (res, w') \<and> dc res = Name ent \<and>
                fetches (issued w w') = pre @ [d])) \<and>
   (getParents client me w = Some (r, w1) \<longrightarrow>
      (\<forall>q\<in>set (butlast (fetches (issued w w1))). Type q \<noteq> ''Datacenter''))"
proof (rule conjI; rule impI)
  let ?none = "\<lparr>dc = ''NONE'', cluster = ''NONE'', spod = ''NONE''\<rparr>"
  assume a: "Parent me = Some p \<and> cache (pcache w) p = None \<and> leads_to client p pre d \<and>
             (\<forall>r\<in>set pre. Type r \<noteq> ''Datacenter'') \<and>
             Type d = ''Datacenter'' \<and> client d = Inr ent"
  then have pm: "Parent me = Some p" and miss: "cache (pcache w) p = None"
    and path: "leads_to client p pre d" and nd: "\<forall>r\<in>set pre. Type r \<noteq> ''Datacenter''"
    and td: "Type d = ''Datacenter''" and fd: "client d = Inr ent"
    by simp_all
  from leads_to_visits [OF nd td fd path] have v: "visits client p (pre @ [d])" .
  from outcome_all_fetched [OF leads_to_fetched [OF path]] obtain mid where
    mid: "outcome client pre ?none = Break mid"
    by blast
  let ?res = "record_node d ent mid"
  let ?w' = "logged (CacheAdd p ?res)
               ((fetched (pre @ [d]) (logged (CacheGet p) w))\<lparr>pcache := Add (pcache w) p ?res\<rparr>)"
  from mid fd have o: "outcome client (pre @ [d]) ?none = Break ?res"
    by (simp add: outcome_snoc)
  from getParents_miss [OF pm miss v, unfolded o]
  have call: "getParents client me w = Some (?res, ?w')"
    by simp
  from td have "dc ?res = Name ent"
    by (simp add: record_node_def)
  moreover have "fetches (issued w ?w') = pre @ [d]"
    unfolding issued_walked
    by (simp add: fetches_append fetches_map_RetrieveOne del: map_append)
  ultimately
  show "\<exists>res w'. getParents client me w = Some (res, w') \<and> dc res = Name ent \<and>
                  fetches (issued w w') = pre @ [d]"
    using call by blast
next
  assume "getParents client me w = Some (r, w1)"
  then show "\<forall>q\<in>set (butlast (fetches (issued w w1))). Type q \<noteq> ''Datacenter''"
  proof (cases rule: getParents_cases)
    case root
    then show ?thesis by (simp add: issued_self)
  next
    case (hit p')
    then show ?thesis by (simp add: issued_logged)
  next
    case (failed p' ns)
    from failed(5) have "fetches (issued w w1) = ns"
      by (simp add: issued_fetched_CacheGet fetches_map_RetrieveOne)
    with visits_Datacenter_last [OF failed(3)] show ?thesis by simp
  next
    case (walked p' ns)
    from walked(5) have "fetches (issued w w1) = ns"
      by (simp add: issued_walked fetches_append fetches_map_RetrieveOne)
    with visits_Datacenter_last [OF walked(3)] show ?thesis by simp
  qed
qed

text \<open>
  The parent chain of \<open>objG\<close> reaches the datacenter \<open>D4\<close> after \<open>S1\<close>, \<open>K2\<close> and
  \<open>F3\<close>. \<open>D4\<close> has the parent \<open>F0\<close>, which is not fetched.
\<close>

theorem getParents_stops_at_Datacenter_witness:
  "Parent objG = Some S1 \<and> cache (pcache start) S1 = None \<and>
   leads_to inventory S1 [S1, K2, F3] D4 \<and>
   Type D4 = ''Datacenter'' \<and> inventory D4 = Inr (mk_entity ''DC2'' (Some F0)) \<and>
   (\<exists>res w'. getParents inventory objG start = Some (res, w') \<and> dc res = ''DC2'' \<and>
      fetches (issued start w') = [S1, K2, F3, D4])"
proof -
  have pG: "Parent objG = Some S1"
    by (simp add: obj_defs)
  have c: "cache (pcache start) S1 = None"
    by (simp add: start_def NewParentsCache_def)
  have l: "leads_to inventory S1 [S1, K2, F3] D4"
    by (simp add: inventory_def ref_defs mk_entity_def)
  have nd: "\<forall>r\<in>set [S1, K2, F3]. Type r \<noteq> ''Datacenter''"
    by (simp add: ref_defs)
  have t: "Type D4 = ''Datacenter''"
    by (simp add: ref_defs)
  have f: "inventory D4 = Inr (mk_entity ''DC2'' (Some F0))"
    by (simp add: inventory_def ref_defs)
  from getParents_stops_at_Datacenter
         [of objG S1 start inventory "[S1, K2, F3]" D4 "mk_entity ''DC2'' (Some F0)"]
       pG c l nd t f
  have "\<exists>res w'. getParents inventory objG start = Some (res, w') \<and>
          dc res = Name (mk_entity ''DC2'' (Some F0)) \<and>
          fetches (issued start w') = [S1, K2, F3] @ [D4]"
    by blast
  then have "\<exists>res w'. getParents inventory objG start = Some (res, w') \<and> dc res = ''DC2'' \<and>
               fetches (issued start w') = [S1, K2, F3, D4]"
    by (simp add: mk_entity_def)
  with pG c l t f show ?thesis
    by blast
qed

subsection \<open>Remote failure during the walk\<close>

text \<open>
  C4. A walk that reaches a node whose fetch fails (after the finite sequence \<open>rs\<close> of
  visited nodes) makes the resolution return \<open>ERROR\<close> in all three fields with the
  cache it started with. Read from the result: if one of the fetches that a
  resolution issued failed, the record is \<open>ERROR\<close> in all three fields, whatever the
  walk had recorded before, the cache is the one the call started with, and it holds no
  entry for the object's parent reference.
\<close>

theorem failed_walk_not_cached:
  "(Parent me = Some p \<and> cache (pcache w) p = None \<and> visits client p rs \<and>
    q \<in> set rs \<and> client q = Inl err \<longrightarrow>
      getParents client me w =
        Some (\<lparr>dc = ''ERROR'', cluster = ''ERROR'', spod = ''ERROR''\<rparr>,
              fetched rs (logged (CacheGet p) w))) \<and>
   (getParents client me w = Some (r, w') \<and>
    q \<in> set (fetches (issued w w')) \<and> client q = Inl err \<longrightarrow>
      r = \<lparr>dc = ''ERROR'', cluster = ''ERROR'', spod = ''ERROR''\<rparr> \<and>
      pcache w' = pcache w \<and>
      (\<exists>p. Parent me = Some p \<and> cache (pcache w') p = None))"
proof (rule conjI; rule impI)
  assume a: "Parent me = Some p \<and> cache (pcache w) p = None \<and> visits client p rs \<and>
             q \<in> set rs \<and> client q = Inl err"
  then have "outcome client rs \<lparr>dc = ''NONE'', cluster = ''NONE'', spod = ''NONE''\<rparr> =
               Return \<lparr>dc = ''ERROR'', cluster = ''ERROR'', spod = ''ERROR''\<rparr>"
    by (intro outcome_failure [where client = client and q = q]) simp_all
  with a getParents_miss [of me p w client rs]
  show "getParents client me w =
          Some (\<lparr>dc = ''ERROR'', cluster = ''ERROR'', spod = ''ERROR''\<rparr>,
                fetched rs (logged (CacheGet p) w))"
    by simp
next
  assume b: "getParents client me w = Some (r, w') \<and>
             q \<in> set (fetches (issued w w')) \<and> client q = Inl err"
  then have call: "getParents client me w = Some (r, w')"
    and q: "q \<in> set (fetches (issued w w'))" and f: "client q = Inl err"
    by simp_all
  from call
  show "r = \<lparr>dc = ''ERROR'', cluster = ''ERROR'', spod = ''ERROR''\<rparr> \<and>
        pcache w' = pcache w \<and>
        (\<exists>p. Parent me = Some p \<and> cache (pcache w') p = None)"
  proof (cases rule: getParents_cases)
    case root
    with q show ?thesis by (simp add: issued_self)
  next
    case (hit p)
    with q show ?thesis by (simp add: issued_logged)
  next
    case (failed p ns)
    from failed(5) q have "q \<in> set ns"
      by (simp add: issued_fetched_CacheGet fetches_map_RetrieveOne)
    from outcome_failure [where client = client, OF this f] failed show ?thesis
      by (simp add: fetched_simps logged_simps)
  next
    case (walked p ns)
    from walked(5) q have "q \<in> set ns"
      by (simp add: issued_walked fetches_append fetches_map_RetrieveOne)
    from outcome_failure [where client = client, OF this f] walked(4) show ?thesis
      by simp
  qed
qed

text \<open>
  The walk for \<open>objE\<close> has recorded the cluster \<open>ClusterB\<close> when the fetch of \<open>B3\<close>
  fails.
\<close>

theorem failed_walk_not_cached_witness:
  "Parent objE = Some B1 \<and> cache (pcache start) B1 = None \<and>
   visits inventory B1 [B1, B2, B3] \<and> B3 \<in> set [B1, B2, B3] \<and>
   getParents inventory objE start =
     Some (ERROR, \<lparr>pcache = NewParentsCache,
                   trace = [CacheGet B1, RetrieveOne B1, RetrieveOne B2, RetrieveOne B3]\<rparr>) \<and>
   B3 \<in> set (fetches (issued start
                \<lparr>pcache = NewParentsCache,
                 trace = [CacheGet B1, RetrieveOne B1, RetrieveOne B2, RetrieveOne B3]\<rparr>)) \<and>
   inventory B3 = Inl (Fault ''ManagedObjectNotFound'') \<and>
   inventory B2 = Inr (mk_entity ''ClusterB'' (Some B3)) \<and>
   (ERROR = \<lparr>dc = ''ERROR'', cluster = ''ERROR'', spod = ''ERROR''\<rparr> \<and>
    pcache \<lparr>pcache = NewParentsCache,
            trace = [CacheGet B1, RetrieveOne B1, RetrieveOne B2, RetrieveOne B3]\<rparr> =
      pcache start \<and>
    (\<exists>p. Parent objE = Some p \<and>
         cache (pcache \<lparr>pcache = NewParentsCache,
                        trace = [CacheGet B1, RetrieveOne B1, RetrieveOne B2, RetrieveOne B3]\<rparr>)
           p = None))"
proof -
  let ?w1 = "\<lparr>pcache = NewParentsCache,
              trace = [CacheGet B1, RetrieveOne B1, RetrieveOne B2, RetrieveOne B3]\<rparr>"
  have v: "visits inventory B1 [B1, B2, B3]"
    by (simp add: inventory_def ref_defs mk_entity_def)
  have o: "outcome inventory [B1, B2, B3] res = Return ERROR" for res
    by (simp add: inventory_def ref_defs mk_entity_def ERROR_def)
  have pE: "Parent objE = Some B1"
    by (simp add: obj_defs)
  have c: "cache (pcache start) B1 = None"
    by (simp add: start_def NewParentsCache_def)
  have call: "getParents inventory objE start = Some (ERROR, ?w1)"
    using getParents_miss [OF pE c v, unfolded o]
    by (simp add: fetched_def logged_def start_def)
  have q: "B3 \<in> set (fetches (issued start ?w1))"
    by (simp add: issued_def start_def)
  have f: "inventory B3 = Inl (Fault ''ManagedObjectNotFound'')"
    by (simp add: inventory_def ref_defs)
  have b2: "inventory B2 = Inr (mk_entity ''ClusterB'' (Some B3))"
    by (simp add: inventory_def ref_defs)
  have conc: "ERROR = \<lparr>dc = ''ERROR'', cluster = ''ERROR'', spod = ''ERROR''\<rparr> \<and>
      pcache ?w1 = pcache start \<and>
      (\<exists>p. Parent objE = Some p \<and> cache (pcache ?w1) p = None)"
    using failed_walk_not_cached [of objE B1 start inventory "[B1, B2, B3]" B3
            "Fault ''ManagedObjectNotFound''" ERROR ?w1] call q f
    by blast
  from pE c v call q f b2 conc show ?thesis
    by simp
qed

subsection \<open>Insertion into the cache\<close>

text \<open>
  C5, as stated, says that \<^verbatim>\<open>Add\<close> on a key that is present changes nothing. The
  assignment \<^verbatim>\<open>c.cache[mor] = val\<close> replaces the stored record: after \<open>NONE\<close> was
  stored under \<open>P1\<close>, adding \<open>ERROR\<close> under \<open>P1\<close> changes the cache, and \<^verbatim>\<open>Get\<close>
  returns \<open>ERROR\<close>.
\<close>

theorem Add_not_noop_counterexample:
  "cache (Add NewParentsCache P1 NONE) P1 = Some NONE \<and>
   Add (Add NewParentsCache P1 NONE) P1 ERROR \<noteq> Add NewParentsCache P1 NONE \<and>
   Get (Add (Add NewParentsCache P1 NONE) P1 ERROR) P1 = (ERROR, True)"
proof -
  have "cache (Add (Add NewParentsCache P1 NONE) P1 ERROR) P1 = Some ERROR"
       "cache (Add NewParentsCache P1 NONE) P1 = Some NONE"
    by (simp_all add: Add_def)
  moreover have "NONE \<noteq> ERROR"
    by (simp add: NONE_def ERROR_def)
  ultimately show ?thesis
    by (auto simp: Get_def)
qed

text \<open>
  C5, amended. \<^verbatim>\<open>Add\<close> stores the record under the key whether or not the key is
  present: a lookup of that key then finds the new record, and a lookup of any other
  key finds what it found before. \<^verbatim>\<open>getParents\<close> calls \<^verbatim>\<open>Add\<close> only after the
  lookup of the same key found nothing, so in sequential execution a resolution leaves
  every entry that is present as it is.
\<close>

theorem Add_overwrites:
  "Get (Add c k val) k' = (if k' = k then (val, True) else Get c k') \<and>
   (getParents client me w = Some (r, w') \<and> cache (pcache w) q = Some v \<longrightarrow>
      cache (pcache w') q = Some v)"
  using getParents_keeps_entries [of client me w r w' q v]
  by (simp add: Get_def Add_def)

text \<open>The entry under \<open>S1\<close> survives the resolution of \<open>objC\<close>, which inserts under \<open>P1\<close>.\<close>

theorem Add_overwrites_witness:
  "getParents inventory objC \<lparr>pcache = Add NewParentsCache S1 ERROR, trace = []\<rparr> =
     Some (\<lparr>dc = ''DC1'', cluster = ''ClusterX'', spod = ''NONE''\<rparr>,
           \<lparr>pcache = Add (Add NewParentsCache S1 ERROR) P1
                        \<lparr>dc = ''DC1'', cluster = ''ClusterX'', spod = ''NONE''\<rparr>,
            trace = [CacheGet P1, RetrieveOne P1, RetrieveOne P2, RetrieveOne P3,
                     CacheAdd P1 \<lparr>dc = ''DC1'', cluster = ''ClusterX'', spod = ''NONE''\<rparr>]\<rparr>) \<and>
   cache (pcache \<lparr>pcache = Add NewParentsCache S1 ERROR, trace = []\<rparr>) S1 = Some ERROR \<and>
   cache (pcache \<lparr>pcache = Add (Add NewParentsCache S1 ERROR) P1
                             \<lparr>dc = ''DC1'', cluster = ''ClusterX'', spod = ''NONE''\<rparr>,
                 trace = [CacheGet P1, RetrieveOne P1, RetrieveOne P2, RetrieveOne P3,
                          CacheAdd P1 \<lparr>dc = ''DC1'', cluster = ''ClusterX'', spod = ''NONE''\<rparr>]\<rparr>)
     S1 = Some ERROR"
proof -
  let ?r = "\<lparr>dc = ''DC1'', cluster = ''ClusterX'', spod = ''NONE''\<rparr>"
  let ?w = "\<lparr>pcache = Add NewParentsCache S1 ERROR, trace = []\<rparr>"
  let ?w' = "\<lparr>pcache = Add (Add NewParentsCache S1 ERROR) P1 ?r,
              trace = [CacheGet P1, RetrieveOne P1, RetrieveOne P2, RetrieveOne P3,
                       CacheAdd P1 ?r]\<rparr>"
  have v: "visits inventory P1 [P1, P2, P3]"
    by (simp add: inventory_def ref_defs mk_entity_def)
  have o: "outcome inventory [P1, P2, P3] \<lparr>dc = ''NONE'', cluster = ''NONE'', spod = ''NONE''\<rparr>
             = Break ?r"
    by (simp add: inventory_def ref_defs mk_entity_def record_node_def)
  have pC: "Parent objC = Some P1"
    by (simp add: obj_defs)
  have c: "cache (pcache ?w) P1 = None"
    by (simp add: Add_def NewParentsCache_def ref_defs)
  have before: "cache (pcache ?w) S1 = Some ERROR"
    by (simp add: Add_def)
  have call: "getParents inventory objC ?w = Some (?r, ?w')"
    using getParents_miss [OF pC c v, unfolded o]
    by (simp add: fetched_def logged_def)
  from Add_overwrites [of _ _ _ _ inventory objC ?w ?r ?w' S1 ERROR] call before
  have "cache (pcache ?w') S1 = Some ERROR"
    by blast
  with call before show ?thesis
    by blast
qed

subsection \<open>Cluster and storage pod on one path\<close>

text \<open>
  C6. Let the walk from the parent of an object visit the finite sequence \<open>rs\<close>
  without a failed fetch, and let \<open>rs\<close> contain a node tagged
  \<^verbatim>\<open>ClusterComputeResource\<close> and a node tagged \<^verbatim>\<open>StoragePod\<close>. Then the resolution
  returns a record whose cluster field is the name of the cluster node and whose
  storage-pod field is the name of the storage-pod node (of the last visited one, should
  a tag occur more than once). The record is the one of the walk over the nodes tagged
  \<^verbatim>\<open>StoragePod\<close>, \<^verbatim>\<open>ClusterComputeResource\<close> or \<^verbatim>\<open>Datacenter\<close> alone: nodes with
  any other tag do not contribute.
\<close>

theorem cluster_and_spod_both_recorded:
  assumes "Parent me = Some p" and "cache (pcache w) p = None"
    and "visits client p rs" and "\<forall>r\<in>set rs. \<exists>ent. client r = Inr ent"
    and "tagged ''ClusterComputeResource'' rs \<noteq> []"
    and "client (last (tagged ''ClusterComputeResource'' rs)) = Inr ce"
    and "tagged ''StoragePod'' rs \<noteq> []"
    and "client (last (tagged ''StoragePod'' rs)) = Inr se"
  shows "\<exists>res w'. getParents client me w = Some (res, w') \<and>
           cluster res = Name ce \<and> spod res = Name se \<and>
           outcome client (filter informative rs)
             \<lparr>dc = ''NONE'', cluster = ''NONE'', spod = ''NONE''\<rparr> = Break res"
proof -
  let ?none = "\<lparr>dc = ''NONE'', cluster = ''NONE'', spod = ''NONE''\<rparr>"
  from outcome_all_fetched [OF assms(4)] obtain res where
    res: "outcome client rs ?none = Break res"
    by blast
  from getParents_miss [OF assms(1,2,3)] res
  have "\<exists>w'. getParents client me w = Some (res, w')"
    by simp
  moreover from outcome_cluster [OF res assms(5,6)] have "cluster res = Name ce" .
  moreover from outcome_spod [OF res assms(7,8)] have "spod res = Name se" .
  moreover from outcome_informative [OF assms(4)] res
  have "outcome client (filter informative rs) ?none = Break res"
    by simp
  ultimately show ?thesis by blast
qed

text \<open>
  The parent chain of \<open>objG\<close>: storage pod \<open>PodA\<close>, cluster \<open>ClusterY\<close>, a folder,
  datacenter \<open>DC2\<close>.
\<close>

theorem cluster_and_spod_both_recorded_witness:
  "Parent objG = Some S1 \<and> cache (pcache start) S1 = None \<and>
   visits inventory S1 [S1, K2, F3, D4] \<and>
   last (tagged ''ClusterComputeResource'' [S1, K2, F3, D4]) = K2 \<and>
   inventory K2 = Inr (mk_entity ''ClusterY'' (Some F3)) \<and>
   last (tagged ''StoragePod'' [S1, K2, F3, D4]) = S1 \<and>
   inventory S1 = Inr (mk_entity ''PodA'' (Some K2)) \<and>
   filter informative [S1, K2, F3, D4] = [S1, K2, D4] \<and>
   (\<exists>res w'. getParents inventory objG start = Some (res, w') \<and>
      cluster res = ''ClusterY'' \<and> spod res = ''PodA'' \<and>
      outcome inventory [S1, K2, D4] \<lparr>dc = ''NONE'', cluster = ''NONE'', spod = ''NONE''\<rparr> =
        Break res)"
proof -
  have pG: "Parent objG = Some S1"
    by (simp add: obj_defs)
  have c: "cache (pcache start) S1 = None"
    by (simp add: start_def NewParentsCache_def)
  have v: "visits inventory S1 [S1, K2, F3, D4]"
    by (simp add: inventory_def ref_defs mk_entity_def)
  have ok: "\<forall>r\<in>set [S1, K2, F3, D4]. \<exists>ent. inventory r = Inr ent"
    by (simp add: inventory_def ref_defs)
  have tc: "tagged ''ClusterComputeResource'' [S1, K2, F3, D4] = [K2]"
    by (simp add: tagged_def ref_defs)
  have ts: "tagged ''StoragePod'' [S1, K2, F3, D4] = [S1]"
    by (simp add: tagged_def ref_defs)
  have fc: "inventory (last (tagged ''ClusterComputeResource'' [S1, K2, F3, D4])) =
              Inr (mk_entity ''ClusterY'' (Some F3))"
    unfolding tc by (simp add: inventory_def ref_defs)
  have fs: "inventory (last (tagged ''StoragePod'' [S1, K2, F3, D4])) =
              Inr (mk_entity ''PodA'' (Some K2))"
    unfolding ts by (simp add: inventory_def ref_defs)
  have nc: "tagged ''ClusterComputeResource'' [S1, K2, F3, D4] \<noteq> []"
    unfolding tc by simp
  have ns: "tagged ''StoragePod'' [S1, K2, F3, D4] \<noteq> []"
    unfolding ts by simp
  have inf: "filter informative [S1, K2, F3, D4] = [S1, K2, D4]"
    by (simp add: informative_def ref_defs)
  note cluster_and_spod_both_recorded [OF pG c v ok nc fc ns fs, unfolded inf]
  with pG c v tc ts fc fs inf show ?thesis
    by (simp add: mk_entity_def)
qed

subsection \<open>The scenario of two objects below one resource pool\<close>

text \<open>
  C7, as stated, counts two remote fetches for resolving \<open>C\<close> and then \<open>D\<close>. The walk
  fetches every node it visits, the datacenter included (its name is read from the
  fetched entity): three fetches, of \<open>P1\<close>, \<open>P2\<close> and \<open>P3\<close>.
\<close>

theorem scenario_fetch_count_counterexample:
  "Update_parents inventory [objC, objD] start =
     Some ([\<lparr>dc = ''DC1'', cluster = ''ClusterX'', spod = ''NONE''\<rparr>,
            \<lparr>dc = ''DC1'', cluster = ''ClusterX'', spod = ''NONE''\<rparr>],
           \<lparr>pcache = Add NewParentsCache P1 \<lparr>dc = ''DC1'', cluster = ''ClusterX'', spod = ''NONE''\<rparr>,
            trace = [CacheFlush, CacheGet P1, RetrieveOne P1, RetrieveOne P2, RetrieveOne P3,
                     CacheAdd P1 \<lparr>dc = ''DC1'', cluster = ''ClusterX'', spod = ''NONE''\<rparr>,
                     CacheGet P1]\<rparr>) \<and>
   length (fetches [CacheFlush, CacheGet P1, RetrieveOne P1, RetrieveOne P2, RetrieveOne P3,
                    CacheAdd P1 \<lparr>dc = ''DC1'', cluster = ''ClusterX'', spod = ''NONE''\<rparr>,
                    CacheGet P1]) \<noteq> 2"
proof -
  let ?r = "\<lparr>dc = ''DC1'', cluster = ''ClusterX'', spod = ''NONE''\<rparr>"
  let ?w0 = "\<lparr>pcache = NewParentsCache, trace = [CacheFlush]\<rparr>"
  let ?w1 = "\<lparr>pcache = Add NewParentsCache P1 ?r,
              trace = [CacheFlush, CacheGet P1, RetrieveOne P1, RetrieveOne P2, RetrieveOne P3,
                       CacheAdd P1 ?r]\<rparr>"
  have v: "visits inventory P1 [P1, P2, P3]"
    by (simp add: inventory_def ref_defs mk_entity_def)
  have o: "outcome inventory [P1, P2, P3] \<lparr>dc = ''NONE'', cluster = ''NONE'', spod = ''NONE''\<rparr>
             = Break ?r"
    by (simp add: inventory_def ref_defs mk_entity_def record_node_def)
  have pC: "Parent objC = Some P1" and pD: "Parent objD = Some P1"
    by (simp_all add: obj_defs)
  have c0: "cache (pcache ?w0) P1 = None"
    by (simp add: NewParentsCache_def)
  have c1: "cache (pcache ?w1) P1 = Some ?r"
    by (simp add: Add_def)
  have first: "getParents inventory objC ?w0 = Some (?r, ?w1)"
    using getParents_miss [OF pC c0 v, unfolded o]
    by (simp add: fetched_def logged_def)
  have second: "getParents inventory objD ?w1 = Some (?r, logged (CacheGet P1) ?w1)"
    by (rule getParents_hit [OF pD c1])
  have w0: "logged CacheFlush (start\<lparr>pcache := Flush (pcache start)\<rparr>) = ?w0"
    by (simp add: logged_def start_def Flush_def NewParentsCache_def)
  show ?thesis
    unfolding Update_parents_def w0
    by (simp add: first second logged_def)
qed

text \<open>
  C7, amended. In that scenario, for any two objects with parent \<open>P1\<close> and from any
  state of the cache before the scrape: a scrape that resolves the two in order
  returns \<open>DC1\<close>, \<open>ClusterX\<close>, \<open>NONE\<close> for both and issues exactly three remote
  fetches, of \<open>P1\<close>, \<open>P2\<close> and \<open>P3\<close> in this order.
\<close>

theorem scenario_two_objects:
  assumes "Parent c = Some P1" and "Parent d = Some P1"
  shows "\<exists>w'. Update_parents inventory [c, d] w =
                 Some ([\<lparr>dc = ''DC1'', cluster = ''ClusterX'', spod = ''NONE''\<rparr>,
                        \<lparr>dc = ''DC1'', cluster = ''ClusterX'', spod = ''NONE''\<rparr>], w') \<and>
              fetches (issued w w') = [P1, P2, P3]"
proof -
  let ?r = "\<lparr>dc = ''DC1'', cluster = ''ClusterX'', spod = ''NONE''\<rparr>"
  let ?w0 = "logged CacheFlush (w\<lparr>pcache := Flush (pcache w)\<rparr>)"
  let ?w1 = "logged (CacheAdd P1 ?r)
               ((fetched [P1, P2, P3] (logged (CacheGet P1) ?w0))\<lparr>pcache := Add (pcache ?w0) P1 ?r\<rparr>)"
  let ?w2 = "logged (CacheGet P1) ?w1"
  have v: "visits inventory P1 [P1, P2, P3]"
    by (simp add: inventory_def ref_defs mk_entity_def)
  have o: "outcome inventory [P1, P2, P3] \<lparr>dc = ''NONE'', cluster = ''NONE'', spod = ''NONE''\<rparr>
             = Break ?r"
    by (simp add: inventory_def ref_defs mk_entity_def record_node_def)
  have c0: "cache (pcache ?w0) P1 = None"
    by (simp add: logged_simps Flush_def)
  have c1: "cache (pcache ?w1) P1 = Some ?r"
    by (simp add: logged_simps Add_def)
  have first: "getParents inventory c ?w0 = Some (?r, ?w1)"
    using getParents_miss [OF assms(1) c0 v, unfolded o] by simp
  have second: "getParents inventory d ?w1 = Some (?r, ?w2)"
    by (rule getParents_hit [OF assms(2) c1])
  have run: "Update_parents inventory [c, d] w = Some ([?r, ?r], ?w2)"
    unfolding Update_parents_def by (simp add: first second)
  have "trace ?w2 = trace w @ [CacheFlush, CacheGet P1, RetrieveOne P1, RetrieveOne P2,
                              RetrieveOne P3, CacheAdd P1 ?r, CacheGet P1]"
    by (simp add: logged_simps fetched_simps)
  from issued_trace [OF this] have "fetches (issued w ?w2) = [P1, P2, P3]"
    by simp
  with run show ?thesis by blast
qed

theorem scenario_two_objects_witness:
  "Parent objC = Some P1 \<and> Parent objD = Some P1 \<and>
   (\<exists>w'. Update_parents inventory [objC, objD] start =
            Some ([\<lparr>dc = ''DC1'', cluster = ''ClusterX'', spod = ''NONE''\<rparr>,
                   \<lparr>dc = ''DC1'', cluster = ''ClusterX'', spod = ''NONE''\<rparr>], w') \<and>
          fetches (issued start w') = [P1, P2, P3])"
proof -
  have pC: "Parent objC = Some P1" and pD: "Parent objD = Some P1"
    by (simp_all add: obj_defs)
  note scenario_two_objects [OF pC pD, of start]
  with pC pD show ?thesis by blast
qed

subsection \<open>The owning resource pool of a virtual machine\<close>

text \<open>
  C8. \<^verbatim>\<open>getVMPool\<close> returns \<^verbatim>\<open>nil\<close> when the machine has no resource-pool reference
  and when the fetch of that reference fails, and the fetched entity otherwise. It
  issues no event in the first case and exactly one remote fetch, of the declared
  reference, in the other two; no cache lookup or insertion is among its events, and
  the cache is unchanged. Its result is a pointer or \<^verbatim>\<open>nil\<close>: no error leaves it.
\<close>

theorem getVMPool_single_fetch:
  "fst (getVMPool client me w) =
     (case ResourcePool me of
        None \<Rightarrow> None
      | Some rp \<Rightarrow> (case client rp of Inl err \<Rightarrow> None | Inr ent \<Rightarrow> Some ent)) \<and>
   issued w (snd (getVMPool client me w)) =
     (case ResourcePool me of None \<Rightarrow> [] | Some rp \<Rightarrow> [RetrieveOne rp]) \<and>
   pcache (snd (getVMPool client me w)) = pcache w"
  by (simp add: getVMPool_def issued_self issued_logged logged_simps Let_def
           split: option.split sum.split)

subsection \<open>Labels of a virtual machine\<close>



subsection \<open>Termination of the walk\<close>

text \<open>
  C10. The walk keeps no record of the nodes it has seen. Where every parent pointer
  that the remote side reports leads to a node of smaller rank (the parent pointers are
  acyclic and every chain is finite), every resolution returns. Where the parent of the
  object lies in a set of nodes none of which is tagged \<^verbatim>\<open>Datacenter\<close>, each of which
  can be fetched and each of which has its parent in the set again (as the nodes of a
  cycle do), and the cache has no entry for that parent, the resolution does not return.
\<close>

theorem getParents_terminates_unless_cycle:
  fixes rank :: "ManagedObjectReference \<Rightarrow> nat"
  shows
  "((\<forall>r ent q. client r = Inr ent \<and> Parent ent = Some q \<longrightarrow> rank q < rank r) \<longrightarrow>
      (\<exists>y. getParents client me w = Some y)) \<and>
   ((\<forall>r\<in>S. Type r \<noteq> ''Datacenter'' \<and>
             (\<exists>ent q. client r = Inr ent \<and> Parent ent = Some q \<and> q \<in> S)) \<and>
    Parent me = Some p \<and> p \<in> S \<and> cache (pcache w) p = None \<longrightarrow>
      getParents client me w = None)"
proof (intro conjI impI)
  assume "\<forall>r ent q. client r = Inr ent \<and> Parent ent = Some q \<longrightarrow> rank q < rank r"
  from ranked_visits [OF this] show "\<exists>y. getParents client me w = Some y"
    by (intro getParents_returns)
next
  assume a: "(\<forall>r\<in>S. Type r \<noteq> ''Datacenter'' \<and>
                   (\<exists>ent q. client r = Inr ent \<and> Parent ent = Some q \<and> q \<in> S)) \<and>
             Parent me = Some p \<and> p \<in> S \<and> cache (pcache w) p = None"
  then have "\<not> visits client p rs" for rs
    by (intro cycle_no_visits [of S client]) simp_all
  with a show "getParents client me w = None"
    by (intro getParents_diverges [of me p]) simp_all
qed

text \<open>
  \<open>inventory\<close> is acyclic, with \<open>inventory_rank\<close>; in \<open>cyclic_inventory\<close> the folders
  \<open>L1\<close> and \<open>L2\<close> are each other's parent.
\<close>

theorem getParents_terminates_unless_cycle_witness:
  "(\<exists>y. getParents inventory objG start = Some y) \<and>
   cyclic_inventory L1 = Inr (mk_entity ''a'' (Some L2)) \<and>
   cyclic_inventory L2 = Inr (mk_entity ''b'' (Some L1)) \<and>
   Parent objL = Some L1 \<and> L1 \<in> {L1, L2} \<and> cache (pcache start) L1 = None \<and>
   getParents cyclic_inventory objL start = None"
proof -
  have acyclic: "\<forall>r ent q. inventory r = Inr ent \<and> Parent ent = Some q \<longrightarrow>
                   inventory_rank q < inventory_rank r"
    by (auto simp: inventory_def inventory_rank_def mk_entity_def ref_defs split: if_splits)
  have cyc: "\<forall>r\<in>{L1, L2}. Type r \<noteq> ''Datacenter'' \<and>
               (\<exists>ent q. cyclic_inventory r = Inr ent \<and> Parent ent = Some q \<and> q \<in> {L1, L2})"
    by (simp add: cyclic_inventory_def mk_entity_def ref_defs)
  have pL: "Parent objL = Some L1"
    by (simp add: obj_defs)
  have c: "cache (pcache start) L1 = None"
    by (simp add: start_def NewParentsCache_def)
  from getParents_terminates_unless_cycle [of inventory inventory_rank objG start] acyclic
  have ret: "\<exists>y. getParents inventory objG start = Some y"
    by blast
  from getParents_terminates_unless_cycle
         [of cyclic_inventory _ objL start "{L1, L2}" L1] cyc pL c
  have div: "getParents cyclic_inventory objL start = None"
    by blast
  have l: "cyclic_inventory L1 = Inr (mk_entity ''a'' (Some L2))"
          "cyclic_inventory L2 = Inr (mk_entity ''b'' (Some L1))"
    by (simp_all add: cyclic_inventory_def ref_defs)
  from ret l pL c div show ?thesis
    by blast
qed

end
